theory Spec2Isabelle
  imports Complex_Main "HOL-Library.Multiset"
begin

section \<open>Numbers of the preprocessor\<close>

text \<open>
  The numeric core of \<^verbatim>\<open>preprocess.py\<close> works on NumPy \<^verbatim>\<open>float64\<close> values. They are
  modelled as the reals extended by the three special values that NumPy produces instead
  of raising: \<open>PInf\<close>, \<open>NInf\<close> and \<open>NaN\<close>. Finite arithmetic is exact (rounding and
  overflow are not modelled) and the two zeros are not distinguished; the special values
  follow IEEE 754: \<open>NaN\<close> is absorbing, every comparison with \<open>NaN\<close> is false,
  \<open>0 / 0\<close>, \<open>inf - inf\<close> and \<open>0 * inf\<close> are \<open>NaN\<close>, a non-zero finite value divided
  by zero is an infinity.
\<close>

datatype npfloat = Fin real | PInf | NInf | NaN

fun fneg :: "npfloat \<Rightarrow> npfloat" where
  "fneg (Fin a) = Fin (- a)"
| "fneg PInf = NInf"
| "fneg NInf = PInf"
| "fneg NaN = NaN"

fun fadd :: "npfloat \<Rightarrow> npfloat \<Rightarrow> npfloat" where
  "fadd (Fin a) (Fin b) = Fin (a + b)"
| "fadd NaN y = NaN"
| "fadd x NaN = NaN"
| "fadd PInf NInf = NaN"
| "fadd NInf PInf = NaN"
| "fadd PInf y = PInf"
| "fadd x PInf = PInf"
| "fadd NInf y = NInf"
| "fadd x NInf = NInf"

definition fsub :: "npfloat \<Rightarrow> npfloat \<Rightarrow> npfloat" where
  "fsub x y = fadd x (fneg y)"

text \<open>The sign of a value that is not \<open>NaN\<close>: \<open>-1\<close>, \<open>0\<close> or \<open>1\<close>.\<close>

fun fsign :: "npfloat \<Rightarrow> int" where
  "fsign (Fin a) = (if a < 0 then - 1 else if a = 0 then 0 else 1)"
| "fsign PInf = 1"
| "fsign NInf = - 1"
| "fsign NaN = 0"

fun fmul :: "npfloat \<Rightarrow> npfloat \<Rightarrow> npfloat" where
  "fmul (Fin a) (Fin b) = Fin (a * b)"
| "fmul NaN y = NaN"
| "fmul x NaN = NaN"
| "fmul x y =
     (let s = fsign x * fsign y
      in if s = 0 then NaN else if 0 < s then PInf else NInf)"

fun fdiv :: "npfloat \<Rightarrow> npfloat \<Rightarrow> npfloat" where
  "fdiv (Fin a) (Fin b) =
     (if b = 0 then (if a = 0 then NaN else if 0 < a then PInf else NInf)
      else Fin (a / b))"
| "fdiv NaN y = NaN"
| "fdiv x NaN = NaN"
| "fdiv (Fin a) y = Fin 0"
| "fdiv PInf (Fin b) = (if 0 \<le> b then PInf else NInf)"
| "fdiv NInf (Fin b) = (if 0 \<le> b then NInf else PInf)"
| "fdiv x y = NaN"

fun fabs :: "npfloat \<Rightarrow> npfloat" where
  "fabs (Fin a) = Fin \<bar>a\<bar>"
| "fabs PInf = PInf"
| "fabs NInf = PInf"
| "fabs NaN = NaN"

text \<open>The comparison \<^verbatim>\<open>x < y\<close>; \<^verbatim>\<open>x > y\<close> is \<open>fless y x\<close>.\<close>

fun fless :: "npfloat \<Rightarrow> npfloat \<Rightarrow> bool" where
  "fless (Fin a) (Fin b) = (a < b)"
| "fless NaN y = False"
| "fless x NaN = False"
| "fless x NInf = False"
| "fless PInf y = False"
| "fless NInf y = True"
| "fless x PInf = True"

definition fgt :: "npfloat \<Rightarrow> npfloat \<Rightarrow> bool" where
  "fgt x y = fless y x"

text \<open>\<^verbatim>\<open>x >= y\<close>, used to state bounds on results.\<close>

definition fge :: "npfloat \<Rightarrow> npfloat \<Rightarrow> bool" where
  "fge x y = (fless y x \<or> (x = y \<and> x \<noteq> NaN))"

section \<open>The density estimator\<close>

text \<open>
  \<^verbatim>\<open>kde_epanechnikov(values, grid, bw)\<close> builds the matrix \<^verbatim>\<open>u = (grid_col - val_row) / bw\<close>
  with one row per grid point and one column per value, the weights
  \<^verbatim>\<open>k = 0.75 * (1 - u**2)\<close>, zeroes the entries with \<^verbatim>\<open>np.abs(u) > 1\<close>, and returns
  \<^verbatim>\<open>np.mean(k, axis=1) / bw\<close>. \<open>kernel_entry\<close> is one entry of \<open>k\<close> after the
  zeroing; the mean of a row is its sum divided by its length, which for a row of
  length zero is \<open>0 / 0\<close>.
\<close>

definition kernel_entry :: "npfloat \<Rightarrow> npfloat \<Rightarrow> npfloat \<Rightarrow> npfloat" where
  "kernel_entry g v bw =
     (let u = fdiv (fsub g v) bw;
          k = fmul (Fin 0.75) (fsub (Fin 1) (fmul u u))
      in if fgt (fabs u) (Fin 1) then Fin 0 else k)"

definition np_sum :: "npfloat list \<Rightarrow> npfloat" where
  "np_sum xs = foldl fadd (Fin 0) xs"

definition np_mean :: "npfloat list \<Rightarrow> npfloat" where
  "np_mean xs = fdiv (np_sum xs) (Fin (real (length xs)))"

definition kde_epanechnikov :: "npfloat list \<Rightarrow> npfloat list \<Rightarrow> npfloat \<Rightarrow> npfloat list" where
  "kde_epanechnikov values grid bw =
     map (\<lambda>g. fdiv (np_mean (map (\<lambda>v. kernel_entry g v bw) values)) bw) grid"

text \<open>
  The kernel weight and the curve in the words of the specification, over the reals:
  the weight is \<open>0.75 * (1 - u\<^sup>2)\<close> when \<open>\<bar>u\<bar> \<le> 1\<close> and \<open>0\<close> otherwise, and the curve
  at \<open>g\<close> is the sum of the weights over all values divided by
  \<open>len(values) * bandwidth\<close>.
\<close>

definition spec_kernel_weight :: "real \<Rightarrow> real" where
  "spec_kernel_weight u = (if \<bar>u\<bar> \<le> 1 then 0.75 * (1 - u\<^sup>2) else 0)"

definition spec_density :: "real list \<Rightarrow> real \<Rightarrow> real \<Rightarrow> real" where
  "spec_density vs b g =
     (\<Sum>v\<leftarrow>vs. spec_kernel_weight ((g - v) / b)) / (real (length vs) * b)"

section \<open>The rating table and the evaluation grid\<close>

text \<open>
  \<^verbatim>\<open>read_csv\<close> gives the column \<^verbatim>\<open>rating\<close> the type \<^verbatim>\<open>int64\<close> when every cell is an
  integer and \<^verbatim>\<open>float64\<close> otherwise, a missing cell being \<open>NaN\<close>. A cell is modelled by the
  value parsed: \<open>I64\<close> for an integer, \<open>F64\<close> for a float. A column whose cells are all
  \<open>I64\<close> is an \<^verbatim>\<open>int64\<close> column: its values are the integers of \<open>[-2\<^sup>6\<^sup>3, 2\<^sup>6\<^sup>3)\<close> and its
  arithmetic wraps around. In every other column each cell is a \<^verbatim>\<open>float64\<close>, an integer
  cell being converted. The conversion of an integer to \<^verbatim>\<open>float64\<close> is taken as exact,
  like the float arithmetic; it is exact for the integers of magnitude up to \<open>2\<^sup>5\<^sup>3\<close>.
\<close>

datatype npnumber = I64 int | F64 npfloat

definition wrap64 :: "int \<Rightarrow> int" where
  "wrap64 x = (x + 2 ^ 63) mod 2 ^ 64 - 2 ^ 63"

fun to_float :: "npnumber \<Rightarrow> npfloat" where
  "to_float (I64 x) = Fin (real_of_int x)"
| "to_float (F64 f) = f"

fun is_I64 :: "npnumber \<Rightarrow> bool" where
  "is_I64 (I64 x) = True"
| "is_I64 (F64 f) = False"

definition int_column :: "npnumber list \<Rightarrow> bool" where
  "int_column col = list_all is_I64 col"

fun int_values :: "npnumber list \<Rightarrow> int list" where
  "int_values [] = []"
| "int_values (I64 x # col) = x # int_values col"
| "int_values (F64 f # col) = int_values col"

text \<open>
  The month of a row is the integer or the string that \<^verbatim>\<open>read_csv\<close> parsed, or the
  missing value \<open>NaN\<close>, which the comparison \<^verbatim>\<open>==\<close> of pandas finds equal to nothing,
  itself included.
\<close>

datatype month_key = MonthInt int | MonthStr string | MonthNaN

definition key_eq :: "month_key \<Rightarrow> month_key \<Rightarrow> bool" where
  "key_eq a b = (a = b \<and> a \<noteq> MonthNaN)"

text \<open>
  \<^verbatim>\<open>final_df\<close> is the table with the columns \<^verbatim>\<open>month\<close>, \<^verbatim>\<open>fed\<close> and \<^verbatim>\<open>rating\<close>, a list of
  rows. \<^verbatim>\<open>final_df[final_df['month'] == m]['rating'].values\<close> are the ratings of the rows
  of month \<open>m\<close>, in table order; the only use of these values is the subtraction from the
  float grid in \<^verbatim>\<open>kde_epanechnikov\<close>, which converts them to \<^verbatim>\<open>float64\<close>, so the model
  converts them where it selects them. \<^verbatim>\<open>final_df['month'].unique()\<close> are the months in
  order of first appearance, a missing month among them once.
\<close>

record row =
  month :: month_key
  fed :: string
  rating :: npnumber

definition month_ratings :: "row list \<Rightarrow> month_key \<Rightarrow> npfloat list" where
  "month_ratings final_df m =
     map (\<lambda>r. to_float (rating r)) (filter (\<lambda>r. key_eq (month r) m) final_df)"

definition unique :: "'a list \<Rightarrow> 'a list" where
  "unique xs = fold (\<lambda>x seen. if x \<in> set seen then seen else seen @ [x]) xs []"

definition months :: "row list \<Rightarrow> month_key list" where
  "months final_df = unique (map month final_df)"

text \<open>
  \<^verbatim>\<open>Series.min()\<close> and \<^verbatim>\<open>Series.max()\<close> of pandas skip \<open>NaN\<close> entries and return \<open>NaN\<close>
  when nothing is left, in particular for an empty column. On an \<^verbatim>\<open>int64\<close> column that
  is not empty they return an \<^verbatim>\<open>int64\<close>.
\<close>

definition series_min :: "npfloat list \<Rightarrow> npfloat" where
  "series_min xs =
     (case filter (\<lambda>x. x \<noteq> NaN) xs of
        [] \<Rightarrow> NaN
      | y # ys \<Rightarrow> foldl (\<lambda>a x. if fless x a then x else a) y ys)"

definition series_max :: "npfloat list \<Rightarrow> npfloat" where
  "series_max xs =
     (case filter (\<lambda>x. x \<noteq> NaN) xs of
        [] \<Rightarrow> NaN
      | y # ys \<Rightarrow> foldl (\<lambda>a x. if fless a x then x else a) y ys)"

definition min_r :: "row list \<Rightarrow> npnumber" where
  "min_r final_df =
     (let col = map rating final_df
      in if col \<noteq> [] \<and> int_column col then
           (case int_values col of
              [] \<Rightarrow> F64 NaN
            | x # xs \<Rightarrow> I64 (fold min xs x))
         else F64 (series_min (map to_float col)))"

definition max_r :: "row list \<Rightarrow> npnumber" where
  "max_r final_df =
     (let col = map rating final_df
      in if col \<noteq> [] \<and> int_column col then
           (case int_values col of
              [] \<Rightarrow> F64 NaN
            | x # xs \<Rightarrow> I64 (fold max xs x))
         else F64 (series_max (map to_float col)))"

text \<open>
  \<^verbatim>\<open>padding\<close> is the Python integer 100: subtracted from or added to an \<^verbatim>\<open>int64\<close> the
  result is an \<^verbatim>\<open>int64\<close> and wraps around, with a \<^verbatim>\<open>float64\<close> it is a \<^verbatim>\<open>float64\<close>.
\<close>

definition padding :: int where
  "padding = 100"

definition grid_min :: "row list \<Rightarrow> npnumber" where
  "grid_min final_df =
     (case min_r final_df of
        I64 x \<Rightarrow> I64 (wrap64 (x - padding))
      | F64 f \<Rightarrow> F64 (fsub f (Fin (real_of_int padding))))"

definition grid_max :: "row list \<Rightarrow> npnumber" where
  "grid_max final_df =
     (case max_r final_df of
        I64 x \<Rightarrow> I64 (wrap64 (x + padding))
      | F64 f \<Rightarrow> F64 (fadd f (Fin (real_of_int padding))))"

text \<open>
  \<^verbatim>\<open>np.linspace(start, stop, num)\<close> with its default \<^verbatim>\<open>endpoint=True\<close> converts its bounds
  to \<^verbatim>\<open>float64\<close>: the indices \<open>0, \<dots>, num - 1\<close> are scaled by the step
  \<^verbatim>\<open>(stop - start) / (num - 1)\<close> (by \<^verbatim>\<open>stop - start\<close> itself when \<^verbatim>\<open>num - 1\<close> is zero, and
  divided first when the step is zero), shifted by \<^verbatim>\<open>start\<close>, and the last entry is
  overwritten with \<^verbatim>\<open>stop\<close> when \<^verbatim>\<open>num > 1\<close>. The points between the first and the last
  are the exact ones here; \<^verbatim>\<open>float64\<close> rounds them, so that nothing is stated below about
  their exact distances.
\<close>

definition linspace :: "npfloat \<Rightarrow> npfloat \<Rightarrow> nat \<Rightarrow> npfloat list" where
  "linspace start stop num =
     (let dv = num - 1;
          delta = fsub stop start;
          y = map (\<lambda>i. Fin (real i)) [0..<num];
          step = fdiv delta (Fin (real dv));
          y = (if 0 < dv then
                 (if step = Fin 0 then map (\<lambda>x. fmul (fdiv x (Fin (real dv))) delta) y
                  else map (\<lambda>x. fmul x step) y)
               else map (\<lambda>x. fmul x delta) y);
          y = map (\<lambda>x. fadd x start) y
      in if 1 < num then y[num - 1 := stop] else y)"

definition x_grid :: "row list \<Rightarrow> npfloat list" where
  "x_grid final_df = linspace (to_float (grid_min final_df)) (to_float (grid_max final_df)) 60"

definition bandwidth :: npfloat where
  "bandwidth = Fin 40"

section \<open>The global maximum scan\<close>

text \<open>
  \<^verbatim>\<open>np.max\<close> returns \<open>NaN\<close> as soon as one entry is \<open>NaN\<close> (as \<^verbatim>\<open>np.maximum\<close> does) and
  raises \<^verbatim>\<open>ValueError\<close> on an array of size zero. It is the only operation of the core
  that can raise.
\<close>

datatype error = ValueError

fun fmaximum :: "npfloat \<Rightarrow> npfloat \<Rightarrow> npfloat" where
  "fmaximum NaN y = NaN"
| "fmaximum x NaN = NaN"
| "fmaximum x y = (if fless x y then y else x)"

definition np_max :: "npfloat list \<Rightarrow> error + npfloat" where
  "np_max xs = (case xs of [] \<Rightarrow> Inl ValueError | x # ys \<Rightarrow> Inr (foldl fmaximum x ys))"

text \<open>The peak of the density curve of month \<open>m\<close>.\<close>

definition period_peak :: "row list \<Rightarrow> npfloat list \<Rightarrow> npfloat \<Rightarrow> month_key \<Rightarrow> error + npfloat" where
  "period_peak final_df grid bw m = np_max (kde_epanechnikov (month_ratings final_df m) grid bw)"

text \<open>
  The body of the loop over the months, from the accumulator \<open>acc\<close> (the variable
  \<^verbatim>\<open>global_max_density\<close>) to its value after month \<open>m\<close>.
\<close>

definition scan_step :: "row list \<Rightarrow> npfloat list \<Rightarrow> npfloat \<Rightarrow> npfloat \<Rightarrow> month_key \<Rightarrow> error + npfloat" where
  "scan_step final_df grid bw acc m =
     (if 0 < length (month_ratings final_df m) then
        (case period_peak final_df grid bw m of
           Inl e \<Rightarrow> Inl e
         | Inr peak \<Rightarrow> Inr (if fgt peak acc then peak else acc))
      else Inr acc)"

fun scan_months :: "row list \<Rightarrow> npfloat list \<Rightarrow> npfloat \<Rightarrow> month_key list \<Rightarrow> npfloat \<Rightarrow> error + npfloat" where
  "scan_months final_df grid bw [] acc = Inr acc"
| "scan_months final_df grid bw (m # ms) acc =
     (case scan_step final_df grid bw acc m of
        Inl e \<Rightarrow> Inl e
      | Inr acc' \<Rightarrow> scan_months final_df grid bw ms acc')"

text \<open>The scan starts from \<open>0\<close> and runs over the months of the table.\<close>

definition global_max_density :: "row list \<Rightarrow> npfloat list \<Rightarrow> npfloat \<Rightarrow> error + npfloat" where
  "global_max_density final_df grid bw = scan_months final_df grid bw (months final_df) (Fin 0)"

text \<open>
  The periods in the words of the specification, over the reals. The observations of
  the period with key \<open>k\<close> are the ratings of the rows of the table with that key, a
  finite rating being an integer or a finite float; the peak of a period is the maximum
  value of its density curve over the grid; \<open>spec_peaks\<close> are the peaks of the
  non-empty periods among the keys \<open>ms\<close>, a missing key being no period.
\<close>

fun rating_real :: "npnumber \<Rightarrow> real option" where
  "rating_real (I64 x) = Some (real_of_int x)"
| "rating_real (F64 (Fin v)) = Some v"
| "rating_real (F64 f) = None"

definition spec_observations :: "row list \<Rightarrow> month_key \<Rightarrow> real list" where
  "spec_observations final_df k =
     map (\<lambda>r. the (rating_real (rating r))) (filter (\<lambda>r. month r = k) final_df)"

definition spec_peak :: "real list \<Rightarrow> real list \<Rightarrow> real \<Rightarrow> real" where
  "spec_peak vs gs b = Max (set (map (spec_density vs b) gs))"

definition spec_peaks :: "row list \<Rightarrow> real list \<Rightarrow> real \<Rightarrow> month_key list \<Rightarrow> real set" where
  "spec_peaks final_df gs b ms =
     (\<lambda>k. spec_peak (spec_observations final_df k) gs b)
       ` {k \<in> set ms. k \<noteq> MonthNaN \<and> spec_observations final_df k \<noteq> []}"

text \<open>The accumulator after the step for month \<open>m\<close>, when the step does not raise.\<close>

definition next_acc :: "row list \<Rightarrow> npfloat list \<Rightarrow> npfloat \<Rightarrow> month_key \<Rightarrow> npfloat \<Rightarrow> npfloat" where
  "next_acc final_df grid bw m acc =
     (case scan_step final_df grid bw acc m of Inl e \<Rightarrow> acc | Inr acc' \<Rightarrow> acc')"

text \<open>
  The entry \<^verbatim>\<open>hierarchy["stats"]\<close> that the run writes; \<^verbatim>\<open>float\<close> converts the bounds.
\<close>

record stats =
  maxDensity :: npfloat
  minRating :: npfloat
  maxRating :: npfloat

definition hierarchy_stats :: "row list \<Rightarrow> error + stats" where
  "hierarchy_stats final_df =
     (case global_max_density final_df (x_grid final_df) bandwidth of
        Inl e \<Rightarrow> Inl e
      | Inr g \<Rightarrow> Inr \<lparr>maxDensity = g, minRating = to_float (grid_min final_df),
                     maxRating = to_float (grid_max final_df)\<rparr>)"

section \<open>Properties of the estimator\<close>

lemma kernel_entry_Fin:
  "b \<noteq> 0 \<Longrightarrow> kernel_entry (Fin g) (Fin v) (Fin b) = Fin (spec_kernel_weight ((g - v) / b))"
  by (simp add: kernel_entry_def fsub_def fgt_def spec_kernel_weight_def power2_eq_square)

lemma foldl_fadd_Fin: "foldl fadd (Fin a) (map Fin xs) = Fin (a + sum_list xs)"
  by (induction xs arbitrary: a) (simp_all add: add.assoc)

lemma np_sum_Fin: "np_sum (map Fin xs) = Fin (sum_list xs)"
  by (simp add: np_sum_def foldl_fadd_Fin)

lemma kde_epanechnikov_Fin:
  assumes "vs \<noteq> []" and "b \<noteq> 0"
  shows "kde_epanechnikov (map Fin vs) (map Fin gs) (Fin b) = map (\<lambda>g. Fin (spec_density vs b g)) gs"
proof -
  have row: "map (\<lambda>v. kernel_entry (Fin g) v (Fin b)) (map Fin vs)
      = map Fin (map (\<lambda>v. spec_kernel_weight ((g - v) / b)) vs)" for g
    using assms(2) by (simp add: kernel_entry_Fin comp_def)
  have "fdiv (np_mean (map (\<lambda>v. kernel_entry (Fin g) v (Fin b)) (map Fin vs))) (Fin b)
      = Fin (spec_density vs b g)" for g
    unfolding row np_mean_def np_sum_Fin using assms
    by (simp add: spec_density_def divide_divide_eq_left)
  then show ?thesis
    by (simp add: kde_epanechnikov_def comp_def)
qed

text \<open>
  C1. For every non-empty sequence of observation values, every grid and every
  bandwidth \<open>b > 0\<close>, the estimator returns a curve of the length of the grid whose
  value at each grid point \<open>g\<close> is the sum over all observations \<open>v\<close> of
  \<open>K ((g - v) / b)\<close>, divided by \<open>len(values) * b\<close>, where \<open>K u\<close> is
  \<open>0.75 * (1 - u\<^sup>2)\<close> when \<open>\<bar>u\<bar> \<le> 1\<close> and \<open>0\<close> otherwise.
\<close>

theorem kde_epanechnikov_formula:
  assumes "vs \<noteq> []" and "0 < b"
  shows "length (kde_epanechnikov (map Fin vs) (map Fin gs) (Fin b)) = length gs
    \<and> (\<forall>i < length gs. kde_epanechnikov (map Fin vs) (map Fin gs) (Fin b) ! i
          = Fin ((\<Sum>v\<leftarrow>vs. spec_kernel_weight ((gs ! i - v) / b)) / (real (length vs) * b)))"
proof -
  have "b \<noteq> 0" using assms(2) by simp
  from kde_epanechnikov_Fin [OF assms(1) this, of gs] show ?thesis
    by (simp add: spec_density_def)
qed

theorem kde_epanechnikov_formula_witness:
  "[1000, 1000, 1000] \<noteq> ([] :: real list) \<and> (0::real) < 40
   \<and> length (kde_epanechnikov (map Fin [1000, 1000, 1000]) (map Fin [800, 900, 1000, 1100, 1200]) (Fin 40)) = 5
   \<and> kde_epanechnikov (map Fin [1000, 1000, 1000]) (map Fin [800, 900, 1000, 1100, 1200]) (Fin 40) ! 2
       = Fin (3 / 160)
   \<and> kde_epanechnikov (map Fin [1000, 1000, 1000]) (map Fin [800, 900, 1000, 1100, 1200]) (Fin 40) ! 1
       = Fin 0"
  using kde_epanechnikov_formula [of "[1000, 1000, 1000]" 40 "[800, 900, 1000, 1100, 1200]"]
  by (simp add: spec_kernel_weight_def)

lemma spec_kernel_weight_nonneg: "0 \<le> spec_kernel_weight u"
proof (cases "\<bar>u\<bar> \<le> 1")
  case True
  then have "u\<^sup>2 \<le> 1" using abs_le_square_iff [of u 1] by simp
  then show ?thesis by (simp add: spec_kernel_weight_def)
next
  case False
  then show ?thesis by (simp add: spec_kernel_weight_def)
qed

lemma spec_density_nonneg: "0 \<le> b \<Longrightarrow> 0 \<le> spec_density vs b g"
  unfolding spec_density_def
  by (intro divide_nonneg_nonneg sum_list_nonneg mult_nonneg_nonneg)
    (auto simp: spec_kernel_weight_nonneg)

lemma spec_density_nonpos: "b \<le> 0 \<Longrightarrow> spec_density vs b g \<le> 0"
  unfolding spec_density_def
  by (intro divide_nonneg_nonpos sum_list_nonneg mult_nonneg_nonpos)
    (auto simp: spec_kernel_weight_nonneg)

text \<open>
  C8. For every non-empty sequence of values, every grid and every bandwidth \<open>b > 0\<close>,
  every value of the computed density curve is \<open>\<ge> 0\<close>.
\<close>

theorem kde_epanechnikov_nonneg:
  assumes "vs \<noteq> []" and "0 < b"
  shows "\<forall>d \<in> set (kde_epanechnikov (map Fin vs) (map Fin gs) (Fin b)). fge d (Fin 0)"
proof -
  have "b \<noteq> 0" using assms(2) by simp
  from kde_epanechnikov_Fin [OF assms(1) this, of gs] show ?thesis
    using assms(2) by (auto simp: fge_def spec_density_nonneg less_le)
qed

theorem kde_epanechnikov_nonneg_witness:
  "[1000, 990] \<noteq> ([] :: real list) \<and> (0::real) < 40
   \<and> list_all (\<lambda>d. fge d (Fin 0))
         (kde_epanechnikov (map Fin [1000, 990]) (map Fin [980, 1000, 1100]) (Fin 40))"
  using kde_epanechnikov_nonneg [of "[1000, 990]" 40 "[980, 1000, 1100]"]
  by (simp add: list_all_iff)

section \<open>Empty input, degenerate bandwidth and NaN\<close>

lemma fadd_NaN_right [simp]: "fadd x NaN = NaN"
  by (cases x) simp_all

lemma fmul_NaN_right [simp]: "fmul x NaN = NaN"
  by (cases x) simp_all

lemma fdiv_NaN_right [simp]: "fdiv x NaN = NaN"
  by (cases x) simp_all

lemma fless_NaN_right [simp]: "fless x NaN = False"
  by (cases x) simp_all

lemma fmaximum_NaN_right [simp]: "fmaximum x NaN = NaN"
  by (cases x) simp_all


lemma foldl_fadd_NaN: "foldl fadd NaN xs = NaN"
  by (induction xs) simp_all

lemma np_sum_NaN: "NaN \<in> set xs \<Longrightarrow> foldl fadd a xs = NaN"
  by (induction xs arbitrary: a) (auto simp: foldl_fadd_NaN)

lemma kernel_entry_NaN: "kernel_entry g NaN bw = NaN"
  by (simp add: kernel_entry_def fsub_def fgt_def)

lemma kde_epanechnikov_empty: "kde_epanechnikov [] grid bw = replicate (length grid) NaN"
  by (simp add: kde_epanechnikov_def np_mean_def np_sum_def map_replicate_const)

lemma kde_epanechnikov_NaN:
  assumes "NaN \<in> set values"
  shows "kde_epanechnikov values grid bw = replicate (length grid) NaN"
proof -
  have "NaN \<in> set (map (\<lambda>v. kernel_entry g v bw) values)" for g
    using assms kernel_entry_NaN [of g bw] by (auto simp: image_iff intro!: bexI [of _ NaN])
  then have "np_mean (map (\<lambda>v. kernel_entry g v bw) values) = NaN" for g
    by (simp add: np_mean_def np_sum_def np_sum_NaN del: set_map)
  then show ?thesis
    by (simp add: kde_epanechnikov_def map_replicate_const)
qed

lemma kernel_entry_zero_bw: "kernel_entry g v (Fin 0) = Fin 0 \<or> kernel_entry g v (Fin 0) = NaN"
  by (cases "fadd g (fneg v)") (auto simp: kernel_entry_def fsub_def fgt_def Let_def)

lemma foldl_fadd_zero_or_NaN:
  "a \<in> {Fin 0, NaN} \<Longrightarrow> set xs \<subseteq> {Fin 0, NaN} \<Longrightarrow> foldl fadd a xs \<in> {Fin 0, NaN}"
proof (induction xs arbitrary: a)
  case Nil
  then show ?case by simp
next
  case (Cons x xs)
  have "fadd a x \<in> {Fin 0, NaN}"
    using Cons.prems by auto
  with Cons show ?case by simp
qed

lemma kde_epanechnikov_zero_bw:
  "kde_epanechnikov values grid (Fin 0) = replicate (length grid) NaN"
proof -
  have row: "np_sum (map (\<lambda>v. kernel_entry g v (Fin 0)) values) \<in> {Fin 0, NaN}" for g
    unfolding np_sum_def
    using kernel_entry_zero_bw by (intro foldl_fadd_zero_or_NaN) auto
  have "fdiv (np_mean (map (\<lambda>v. kernel_entry g v (Fin 0)) values)) (Fin 0) = NaN" for g
    using row [of g] unfolding np_mean_def by auto
  then show ?thesis
    by (simp add: kde_epanechnikov_def map_replicate_const)
qed

lemma foldl_fmaximum_NaN: "foldl fmaximum NaN xs = NaN"
  by (induction xs) simp_all

lemma np_max_replicate_NaN: "0 < n \<Longrightarrow> np_max (replicate n NaN) = Inr NaN"
  by (cases n) (simp_all add: np_max_def foldl_fmaximum_NaN)

lemma scan_step_NaN:
  assumes "NaN \<in> set (month_ratings final_df m)" and "grid \<noteq> []"
  shows "scan_step final_df grid bw acc m = Inr acc"
proof -
  have "period_peak final_df grid bw m = Inr NaN"
    using assms by (simp add: period_peak_def kde_epanechnikov_NaN np_max_replicate_NaN)
  then show ?thesis
    by (simp add: scan_step_def fgt_def)
qed

lemma scan_step_not_NaN:
  "scan_step final_df grid bw acc m = Inr acc' \<Longrightarrow> acc \<noteq> NaN \<Longrightarrow> acc' \<noteq> NaN"
  by (auto simp: scan_step_def fgt_def split: if_splits sum.splits)

lemma scan_months_not_NaN:
  "scan_months final_df grid bw ms acc = Inr r \<Longrightarrow> acc \<noteq> NaN \<Longrightarrow> r \<noteq> NaN"
proof (induction ms arbitrary: acc)
  case Nil
  then show ?case by simp
next
  case (Cons m ms)
  then show ?case
    by (auto split: sum.splits dest: scan_step_not_NaN)
qed

lemma scan_step_empty:
  "month_ratings final_df m = [] \<Longrightarrow> scan_step final_df grid bw acc m = Inr acc"
  by (simp add: scan_step_def)

text \<open>
  C10. The estimator performs no emptiness check: on an empty sequence of values it
  divides by the number of observations, zero, and its result is undefined (\<open>NaN\<close> at
  every grid point, whatever the grid and the bandwidth). Its values are defined
  (finite) under the precondition that the values are non-empty (and finite, with
  \<open>b > 0\<close>), and that precondition is enforced by the length guard of the caller alone:
  the step of the scan does not invoke the estimator on an empty period and leaves the
  accumulator as it is.
\<close>

theorem kde_epanechnikov_empty_undefined:
  "kde_epanechnikov [] grid bw = replicate (length grid) NaN
   \<and> (vs \<noteq> [] \<and> 0 < b \<longrightarrow>
        (\<forall>d \<in> set (kde_epanechnikov (map Fin vs) (map Fin gs) (Fin b)). \<exists>x. d = Fin x))
   \<and> (month_ratings final_df m = [] \<longrightarrow> scan_step final_df grid bw acc m = Inr acc)"
proof -
  have "\<forall>d \<in> set (kde_epanechnikov (map Fin vs) (map Fin gs) (Fin b)). \<exists>x. d = Fin x"
    if "vs \<noteq> []" and "0 < b"
  proof -
    have "b \<noteq> 0" using that(2) by simp
    from kde_epanechnikov_Fin [OF that(1) this, of gs] show ?thesis by auto
  qed
  then show ?thesis
    by (simp add: kde_epanechnikov_empty scan_step_empty)
qed

theorem kde_epanechnikov_empty_undefined_witness:
  "kde_epanechnikov [] [Fin 800, Fin 1000] (Fin 40) = [NaN, NaN]
   \<and> list_all (\<lambda>d. \<exists>x. d = Fin x) (kde_epanechnikov (map Fin [1000]) (map Fin [800, 1000]) (Fin 40))
   \<and> month_ratings [\<lparr>month = MonthInt 1, fed = ''FRA'', rating = I64 1000\<rparr>] (MonthInt 2) = []
   \<and> scan_step [\<lparr>month = MonthInt 1, fed = ''FRA'', rating = I64 1000\<rparr>] [Fin 800, Fin 1000] (Fin 40) (Fin 0) (MonthInt 2)
       = Inr (Fin 0)"
  using kde_epanechnikov_empty_undefined [of "[Fin 800, Fin 1000]" "Fin 40" "[1000]" 40 "[800, 1000]"
      "[\<lparr>month = MonthInt 1, fed = ''FRA'', rating = I64 1000\<rparr>]" "MonthInt 2" "Fin 0"]
  by (simp add: list_all_iff month_ratings_def key_eq_def numeral_2_eq_2)

text \<open>
  C6 states that a bandwidth that is not strictly positive makes the estimator fail with
  \<^verbatim>\<open>InvalidParameterError\<close>. The code has no such check: at bandwidth \<open>-1\<close> it returns
  a curve.
\<close>

theorem kde_epanechnikov_negative_bw_counterexample:
  "kde_epanechnikov [Fin 0] [Fin 0] (Fin (- 1)) = [Fin (- (3 / 4))]"
  by (simp add: kde_epanechnikov_def np_mean_def np_sum_def kernel_entry_def fsub_def fgt_def)

text \<open>
  C6, amended. For a bandwidth \<open>b\<close> that is not strictly positive the estimator raises
  nothing and returns a curve of the length of the grid: for \<open>b = 0\<close> every value is
  \<open>NaN\<close>; for \<open>b < 0\<close> the value at \<open>g\<close> is the sum of the kernel weights divided by
  \<open>len(values) * b\<close>, which is \<open>\<le> 0\<close>.
\<close>

theorem kde_epanechnikov_nonpositive_bw:
  assumes "vs \<noteq> []" and "b \<le> 0"
  shows "length (kde_epanechnikov (map Fin vs) (map Fin gs) (Fin b)) = length gs
    \<and> (b = 0 \<longrightarrow> kde_epanechnikov (map Fin vs) (map Fin gs) (Fin b) = replicate (length gs) NaN)
    \<and> (b < 0 \<longrightarrow> kde_epanechnikov (map Fin vs) (map Fin gs) (Fin b)
            = map (\<lambda>g. Fin (spec_density vs b g)) gs
          \<and> (\<forall>g. spec_density vs b g \<le> 0))"
  using assms kde_epanechnikov_Fin [of vs b gs] kde_epanechnikov_zero_bw [of "map Fin vs" "map Fin gs"]
  by (auto simp: spec_density_nonpos kde_epanechnikov_def)

theorem kde_epanechnikov_nonpositive_bw_witness:
  "[1000, 1010] \<noteq> ([] :: real list) \<and> (- 40 :: real) \<le> 0
   \<and> kde_epanechnikov (map Fin [1000, 1010]) (map Fin [1000]) (Fin (- 40)) = [Fin (- (93 / 5120))]"
proof -
  have h1: "[1000, 1010] \<noteq> ([] :: real list)" by simp
  have h2: "(- 40 :: real) \<le> 0" by simp
  from kde_epanechnikov_nonpositive_bw [OF h1 h2, of "[1000]"]
  have "kde_epanechnikov (map Fin [1000, 1010]) (map Fin [1000]) (Fin (- 40))
      = map (\<lambda>g. Fin (spec_density [1000, 1010] (- 40) g)) [1000]"
    by simp
  then show ?thesis
    by (simp add: spec_density_def spec_kernel_weight_def power2_eq_square)
qed

text \<open>
  C7 states that a non-finite rating reaching the core makes the run fail with
  \<^verbatim>\<open>MalformedObservationError\<close> and that a \<open>NaN\<close> is never silently dropped. The code
  has no such check: with a \<open>NaN\<close> rating in month 1 the scan returns the peak of month 2.
\<close>

theorem global_max_density_NaN_counterexample:
  "global_max_density
     [\<lparr>month = MonthInt 1, fed = ''FRA'', rating = F64 NaN\<rparr>,
      \<lparr>month = MonthInt 2, fed = ''FRA'', rating = F64 (Fin 1000)\<rparr>]
     [Fin 1000] (Fin 40) = Inr (Fin (3 / 160))"
  by (simp add: global_max_density_def months_def unique_def scan_step_def period_peak_def
      month_ratings_def key_eq_def np_max_def kde_epanechnikov_def np_mean_def np_sum_def
      kernel_entry_def fsub_def fgt_def)

text \<open>
  C7, amended. The core checks no rating for finiteness and raises nothing for one. A
  period that contains a \<open>NaN\<close> rating has a density curve that is \<open>NaN\<close> at every grid
  point and a \<open>NaN\<close> peak; the comparison \<^verbatim>\<open>peak > global_max_density\<close> is then false,
  so the period is silently skipped: the accumulator is unchanged, and the result of the
  scan is never \<open>NaN\<close>.
\<close>

theorem scan_skips_NaN_period:
  assumes "NaN \<in> set (month_ratings final_df m)" and "grid \<noteq> []"
  shows "kde_epanechnikov (month_ratings final_df m) grid bw = replicate (length grid) NaN
    \<and> period_peak final_df grid bw m = Inr NaN
    \<and> scan_step final_df grid bw acc m = Inr acc
    \<and> global_max_density final_df grid bw \<noteq> Inr NaN"
proof -
  have "global_max_density final_df grid bw \<noteq> Inr NaN"
    using scan_months_not_NaN [of final_df grid bw "months final_df" "Fin 0" NaN]
    by (auto simp: global_max_density_def)
  then show ?thesis
    using assms
    by (simp add: kde_epanechnikov_NaN scan_step_NaN period_peak_def np_max_replicate_NaN)
qed

theorem scan_skips_NaN_period_witness:
  "NaN \<in> set (month_ratings [\<lparr>month = MonthInt 1, fed = ''FRA'', rating = F64 NaN\<rparr>] (MonthInt 1))
   \<and> [Fin 900, Fin 1000] \<noteq> []
   \<and> kde_epanechnikov (month_ratings [\<lparr>month = MonthInt 1, fed = ''FRA'', rating = F64 NaN\<rparr>] (MonthInt 1))
        [Fin 900, Fin 1000] (Fin 40) = [NaN, NaN]
   \<and> scan_step [\<lparr>month = MonthInt 1, fed = ''FRA'', rating = F64 NaN\<rparr>] [Fin 900, Fin 1000] (Fin 40) (Fin 5) (MonthInt 1)
        = Inr (Fin 5)"
proof -
  have h1: "NaN \<in> set (month_ratings [\<lparr>month = MonthInt 1, fed = ''FRA'', rating = F64 NaN\<rparr>] (MonthInt 1))"
    by (simp add: month_ratings_def key_eq_def)
  have h2: "[Fin 900, Fin 1000] \<noteq> []" by simp
  from scan_skips_NaN_period [OF h1 h2, of "Fin 40" "Fin 5"] h1 show ?thesis
    by (simp add: numeral_2_eq_2)
qed

lemma replicate_update_same: "(replicate n x)[i := x] = replicate n x"
  by (induction n arbitrary: i) (simp_all split: nat.splits)

lemma linspace_NaN: "linspace NaN NaN n = replicate n NaN"
  by (simp add: linspace_def Let_def fsub_def map_replicate_const comp_def replicate_update_same)

text \<open>
  C5 states that grid construction fails with \<^verbatim>\<open>EmptyInputError\<close> on an empty set of
  observations and produces neither grid nor bounds. The code raises nothing: on the
  empty table the run completes and writes the statistics with \<open>NaN\<close> bounds.
\<close>

theorem hierarchy_stats_empty_counterexample:
  "hierarchy_stats [] = Inr \<lparr>maxDensity = Fin 0, minRating = NaN, maxRating = NaN\<rparr>"
  by (simp add: hierarchy_stats_def global_max_density_def months_def unique_def grid_min_def
      grid_max_def min_r_def max_r_def series_min_def series_max_def fsub_def padding_def)

text \<open>
  C5, amended. When the set of observations is empty, grid construction raises no error:
  the minimum and the maximum of the ratings are \<open>NaN\<close>, both bounds are \<open>NaN\<close> and the
  grid consists of 60 values \<open>NaN\<close>.
\<close>

theorem x_grid_empty:
  "min_r [] = F64 NaN \<and> max_r [] = F64 NaN \<and> grid_min [] = F64 NaN \<and> grid_max [] = F64 NaN
   \<and> x_grid [] = replicate 60 NaN"
  by (simp add: x_grid_def grid_min_def grid_max_def min_r_def max_r_def series_min_def
      series_max_def fsub_def padding_def linspace_NaN)

section \<open>The bounds of the evaluation grid\<close>













section \<open>The scan on finite observations\<close>

lemma fold_unique_set:
  "set (fold (\<lambda>x seen. if x \<in> set seen then seen else seen @ [x]) xs seen) = set seen \<union> set xs"
  by (induction xs arbitrary: seen) auto

lemma fold_unique_distinct:
  "distinct seen \<Longrightarrow> distinct (fold (\<lambda>x seen. if x \<in> set seen then seen else seen @ [x]) xs seen)"
  by (induction xs arbitrary: seen) auto

lemma set_months: "set (months final_df) = month ` set final_df"
  by (simp add: months_def unique_def fold_unique_set)

lemma distinct_months: "distinct (months final_df)"
  by (simp add: months_def unique_def fold_unique_distinct)

lemma month_ratings_NaN_key: "month_ratings final_df MonthNaN = []"
  by (simp add: month_ratings_def key_eq_def)

lemma to_float_rating_real: "rating_real x \<noteq> None \<Longrightarrow> to_float x = Fin (the (rating_real x))"
  by (cases x rule: rating_real.cases) simp_all

lemma month_ratings_finite:
  assumes "\<forall>r \<in> set final_df. rating_real (rating r) \<noteq> None" and "k \<noteq> MonthNaN"
  shows "month_ratings final_df k = map Fin (spec_observations final_df k)"
proof -
  have "filter (\<lambda>r. key_eq (month r) k) final_df = filter (\<lambda>r. month r = k) final_df"
    using assms(2) by (intro filter_cong) (auto simp: key_eq_def)
  then show ?thesis
    using assms(1) by (simp add: month_ratings_def spec_observations_def to_float_rating_real)
qed

lemma spec_observations_month: "spec_observations final_df k \<noteq> [] \<Longrightarrow> k \<in> month ` set final_df"
  by (auto simp: spec_observations_def filter_empty_conv)

lemma foldl_fmaximum_Fin: "foldl fmaximum (Fin x) (map Fin ys) = Fin (fold max ys x)"
proof (induction ys arbitrary: x)
  case Nil
  then show ?case by simp
next
  case (Cons y ys)
  have "(if x < y then y else x) = max y x" by (simp add: max_def)
  with Cons show ?case by simp
qed

lemma np_max_Fin: "xs \<noteq> [] \<Longrightarrow> np_max (map Fin xs) = Inr (Fin (Max (set xs)))"
  by (cases xs) (simp_all add: np_max_def foldl_fmaximum_Fin Max.set_eq_fold del: set_simps)

lemma spec_density_le_peak: "g \<in> set gs \<Longrightarrow> spec_density vs b g \<le> spec_peak vs gs b"
  unfolding spec_peak_def by (intro Max_ge) simp_all

lemma spec_peak_nonneg:
  assumes "gs \<noteq> []" and "0 < b"
  shows "0 \<le> spec_peak vs gs b"
proof -
  from assms(1) obtain g where g: "g \<in> set gs" by (cases gs) auto
  have "0 \<le> spec_density vs b g" using assms(2) by (simp add: spec_density_nonneg)
  with spec_density_le_peak [OF g, of vs b] show ?thesis by linarith
qed

lemma period_peak_spec:
  assumes "\<forall>r \<in> set final_df. rating_real (rating r) \<noteq> None" and "gs \<noteq> []" and "0 < b"
    and "k \<noteq> MonthNaN" and "spec_observations final_df k \<noteq> []"
  shows "period_peak final_df (map Fin gs) (Fin b) k
    = Inr (Fin (spec_peak (spec_observations final_df k) gs b))"
proof -
  let ?vs = "spec_observations final_df k"
  have "b \<noteq> 0" using assms(3) by simp
  with assms(5) have curve: "kde_epanechnikov (map Fin ?vs) (map Fin gs) (Fin b)
      = map Fin (map (spec_density ?vs b) gs)"
    by (simp add: kde_epanechnikov_Fin comp_def)
  have ne: "map (spec_density ?vs b) gs \<noteq> []" using assms(2) by simp
  show ?thesis
    unfolding period_peak_def month_ratings_finite [OF assms(1,4)] curve spec_peak_def
    by (rule np_max_Fin [OF ne])
qed

lemma scan_step_spec:
  assumes "\<forall>r \<in> set final_df. rating_real (rating r) \<noteq> None" and "gs \<noteq> []" and "0 < b"
  shows "scan_step final_df (map Fin gs) (Fin b) (Fin a) k =
    Inr (Fin (if k \<noteq> MonthNaN \<and> spec_observations final_df k \<noteq> []
              then max a (spec_peak (spec_observations final_df k) gs b) else a))"
proof (cases "k \<noteq> MonthNaN \<and> spec_observations final_df k \<noteq> []")
  case True
  then have "month_ratings final_df k \<noteq> []"
    by (simp add: month_ratings_finite [OF assms(1)])
  with True show ?thesis
    by (simp add: scan_step_def period_peak_spec [OF assms] fgt_def max_def)
next
  case False
  then have "month_ratings final_df k = []"
    by (cases "k = MonthNaN") (simp_all add: month_ratings_NaN_key month_ratings_finite [OF assms(1)])
  with False show ?thesis
    by (auto simp: scan_step_def)
qed

lemma finite_spec_peaks: "finite (spec_peaks final_df gs b ms)"
  by (simp add: spec_peaks_def)

lemma spec_peaks_Nil: "spec_peaks final_df gs b [] = {}"
  by (simp add: spec_peaks_def)

lemma spec_peaks_Cons:
  "spec_peaks final_df gs b (k # ms) =
    (if k \<noteq> MonthNaN \<and> spec_observations final_df k \<noteq> []
     then insert (spec_peak (spec_observations final_df k) gs b) (spec_peaks final_df gs b ms)
     else spec_peaks final_df gs b ms)"
  by (auto simp: spec_peaks_def)

lemma Max_insert_max:
  fixes a :: real
  assumes "finite S"
  shows "Max (insert (max a p) S) = Max (insert a (insert p S))"
  using assms by (cases "S = {}") (simp_all add: max.assoc)

lemma scan_months_spec:
  assumes "\<forall>r \<in> set final_df. rating_real (rating r) \<noteq> None" and "gs \<noteq> []" and "0 < b"
  shows "scan_months final_df (map Fin gs) (Fin b) ms (Fin a)
    = Inr (Fin (Max (insert a (spec_peaks final_df gs b ms))))"
proof (induction ms arbitrary: a)
  case Nil
  then show ?case by (simp add: spec_peaks_Nil)
next
  case (Cons k ms)
  show ?case
    by (simp add: scan_step_spec [OF assms] Cons.IH spec_peaks_Cons
        Max_insert_max [OF finite_spec_peaks])
qed

lemma scan_months_append:
  "scan_months final_df grid bw (xs @ ys) acc =
    (case scan_months final_df grid bw xs acc of
       Inl e \<Rightarrow> Inl e
     | Inr acc' \<Rightarrow> scan_months final_df grid bw ys acc')"
  by (induction xs arbitrary: acc) (simp_all split: sum.splits)

text \<open>
  C2. For every table of finite observations by period, every (non-empty, finite) grid
  and every bandwidth \<open>b > 0\<close>, the scan visits every period key of the table exactly
  once (the months it iterates over are distinct and are exactly the months of the
  table) and returns a value that is \<open>\<ge> 0\<close> and, for every period with a key and at
  least one observation, \<open>\<ge>\<close> every value of the density curve that the estimator
  computes from the observations of the period, hence \<open>\<ge>\<close> its peak; the same bound in
  the words of the specification is the one on \<open>spec_density\<close>.
\<close>

theorem global_max_density_bounds:
  assumes "\<forall>r \<in> set final_df. rating_real (rating r) \<noteq> None" and "gs \<noteq> []" and "0 < b"
  shows "distinct (months final_df) \<and> set (months final_df) = month ` set final_df
    \<and> (\<exists>r. global_max_density final_df (map Fin gs) (Fin b) = Inr (Fin r) \<and> 0 \<le> r
          \<and> (\<forall>k. k \<noteq> MonthNaN \<and> spec_observations final_df k \<noteq> [] \<longrightarrow>
                (\<forall>d \<in> set (kde_epanechnikov (map Fin (spec_observations final_df k))
                              (map Fin gs) (Fin b)). fge (Fin r) d)
              \<and> (\<forall>g \<in> set gs. spec_density (spec_observations final_df k) b g \<le> r)))"
proof -
  let ?S = "spec_peaks final_df gs b (months final_df)"
  let ?r = "Max (insert 0 ?S)"
  have fin: "finite (insert 0 ?S)" by (simp add: finite_spec_peaks)
  have res: "global_max_density final_df (map Fin gs) (Fin b) = Inr (Fin ?r)"
    by (simp add: global_max_density_def scan_months_spec [OF assms])
  have nonneg: "0 \<le> ?r"
    using fin by (intro Max_ge) simp_all
  have bound: "(\<forall>d \<in> set (kde_epanechnikov (map Fin (spec_observations final_df k))
                              (map Fin gs) (Fin b)). fge (Fin ?r) d)
      \<and> (\<forall>g \<in> set gs. spec_density (spec_observations final_df k) b g \<le> ?r)"
    if k: "k \<noteq> MonthNaN" and ne: "spec_observations final_df k \<noteq> []" for k
  proof -
    let ?vs = "spec_observations final_df k"
    from ne have "k \<in> set (months final_df)"
      by (simp add: set_months spec_observations_month)
    with k ne have "spec_peak ?vs gs b \<in> ?S" by (auto simp: spec_peaks_def)
    then have peak: "spec_peak ?vs gs b \<le> ?r" using fin by (intro Max_ge) simp_all
    have dens: "spec_density ?vs b g \<le> ?r" if "g \<in> set gs" for g
      using spec_density_le_peak [OF that, of ?vs b] peak by linarith
    have "b \<noteq> 0" using assms(3) by simp
    with ne have "kde_epanechnikov (map Fin ?vs) (map Fin gs) (Fin b)
        = map (\<lambda>g. Fin (spec_density ?vs b g)) gs"
      by (simp add: kde_epanechnikov_Fin)
    with dens show ?thesis
      by (auto simp: fge_def less_le)
  qed
  from res nonneg bound show ?thesis
    by (auto simp: distinct_months set_months)
qed

theorem global_max_density_bounds_witness:
  "list_all (\<lambda>r. rating_real (rating r) \<noteq> None)
     [\<lparr>month = MonthInt 1, fed = ''FRA'', rating = I64 1000\<rparr>,
      \<lparr>month = MonthInt 2, fed = ''NOR'', rating = I64 1010\<rparr>,
      \<lparr>month = MonthInt 1, fed = ''NOR'', rating = I64 1020\<rparr>]
   \<and> [1000, 1040] \<noteq> ([] :: real list) \<and> (0::real) < 40
   \<and> spec_observations [\<lparr>month = MonthInt 1, fed = ''FRA'', rating = I64 1000\<rparr>,
                         \<lparr>month = MonthInt 2, fed = ''NOR'', rating = I64 1010\<rparr>,
                         \<lparr>month = MonthInt 1, fed = ''NOR'', rating = I64 1020\<rparr>] (MonthInt 1)
       = [1000, 1020]
   \<and> global_max_density [\<lparr>month = MonthInt 1, fed = ''FRA'', rating = I64 1000\<rparr>,
                          \<lparr>month = MonthInt 2, fed = ''NOR'', rating = I64 1010\<rparr>,
                          \<lparr>month = MonthInt 1, fed = ''NOR'', rating = I64 1020\<rparr>]
        (map Fin [1000, 1040]) (Fin 40) = Inr (Fin (9 / 512))
   \<and> kde_epanechnikov (map Fin [1000, 1020]) (map Fin [1000, 1040]) (Fin 40)
       = [Fin (21 / 1280), Fin (9 / 1280)]
   \<and> list_all (\<lambda>d. fge (Fin (9 / 512)) d)
        (kde_epanechnikov (map Fin [1000, 1020]) (map Fin [1000, 1040]) (Fin 40))
   \<and> spec_density [1000, 1020] 40 1000 \<le> 9 / 512"
proof -
  let ?df = "[\<lparr>month = MonthInt 1, fed = ''FRA'', rating = I64 1000\<rparr>,
              \<lparr>month = MonthInt 2, fed = ''NOR'', rating = I64 1010\<rparr>,
              \<lparr>month = MonthInt 1, fed = ''NOR'', rating = I64 1020\<rparr>]"
  have h1: "\<forall>r \<in> set ?df. rating_real (rating r) \<noteq> None" by simp
  have h2: "[1000, 1040] \<noteq> ([] :: real list)" by simp
  have h3: "(0::real) < 40" by simp
  have obs: "spec_observations ?df (MonthInt 1) = [1000, 1020]"
    by (simp add: spec_observations_def)
  have val: "global_max_density ?df (map Fin [1000, 1040]) (Fin 40) = Inr (Fin (9 / 512))"
    by (simp add: global_max_density_def months_def unique_def scan_step_def period_peak_def
        month_ratings_def key_eq_def np_max_def kde_epanechnikov_def np_mean_def np_sum_def
        kernel_entry_def fsub_def fgt_def)
  have curve: "kde_epanechnikov (map Fin [1000, 1020]) (map Fin [1000, 1040]) (Fin 40)
      = [Fin (21 / 1280), Fin (9 / 1280)]"
    by (simp add: kde_epanechnikov_def np_mean_def np_sum_def kernel_entry_def fsub_def fgt_def)
  from global_max_density_bounds [OF h1 h2 h3] obtain r where
    r: "global_max_density ?df (map Fin [1000, 1040]) (Fin 40) = Inr (Fin r)" and
    bound: "\<forall>k. k \<noteq> MonthNaN \<and> spec_observations ?df k \<noteq> [] \<longrightarrow>
        (\<forall>d \<in> set (kde_epanechnikov (map Fin (spec_observations ?df k))
                      (map Fin [1000, 1040]) (Fin 40)). fge (Fin r) d)
      \<and> (\<forall>g \<in> set [1000, 1040]. spec_density (spec_observations ?df k) 40 g \<le> r)"
    by blast
  from r val have "r = 9 / 512" by simp
  with bound [rule_format, of "MonthInt 1"] obs
  have "(\<forall>d \<in> set (kde_epanechnikov (map Fin [1000, 1020]) (map Fin [1000, 1040]) (Fin 40)).
          fge (Fin (9 / 512)) d)
      \<and> spec_density [1000, 1020] 40 1000 \<le> 9 / 512"
    by simp
  with h1 h2 h3 obs val curve show ?thesis
    by (auto simp: list_all_iff)
qed

text \<open>
  C9. At every step of the scan, that is after the first \<open>n\<close> of the months \<open>ms\<close>, the
  accumulator equals the maximum of \<open>0\<close> and the peaks of the non-empty periods
  processed so far, the peak of a period being the maximum over the grid of the density
  of the observations that the rows of the table give for it. The next step does not
  decrease the accumulator: it replaces it by the maximum of the accumulator and the
  peak of the next period when that period has a key and an observation, and leaves it
  unchanged otherwise, and also when the peak is not larger than the accumulator.
\<close>

theorem scan_accumulator_invariant:
  assumes "\<forall>r \<in> set final_df. rating_real (rating r) \<noteq> None" and "gs \<noteq> []" and "0 < b"
  shows "\<forall>n \<le> length ms. \<exists>a.
      scan_months final_df (map Fin gs) (Fin b) (take n ms) (Fin 0) = Inr (Fin a)
    \<and> a = Max (insert 0 (spec_peaks final_df gs b (take n ms)))
    \<and> (n < length ms \<longrightarrow> (\<exists>a'.
          scan_step final_df (map Fin gs) (Fin b) (Fin a) (ms ! n) = Inr (Fin a')
        \<and> scan_months final_df (map Fin gs) (Fin b) (take (Suc n) ms) (Fin 0) = Inr (Fin a')
        \<and> a \<le> a'
        \<and> a' = (if ms ! n \<noteq> MonthNaN \<and> spec_observations final_df (ms ! n) \<noteq> []
                then max a (spec_peak (spec_observations final_df (ms ! n)) gs b) else a)
        \<and> (spec_peak (spec_observations final_df (ms ! n)) gs b \<le> a \<longrightarrow> a' = a)))"
proof (intro allI impI)
  fix n assume "n \<le> length ms"
  let ?grid = "map Fin gs" and ?bw = "Fin b"
  define a where "a = Max (insert 0 (spec_peaks final_df gs b (take n ms)))"
  define a' where "a' = (if ms ! n \<noteq> MonthNaN \<and> spec_observations final_df (ms ! n) \<noteq> []
      then max a (spec_peak (spec_observations final_df (ms ! n)) gs b) else a)"
  have acc: "scan_months final_df ?grid ?bw (take n ms) (Fin 0) = Inr (Fin a)"
    by (simp add: a_def scan_months_spec [OF assms])
  have step: "scan_step final_df ?grid ?bw (Fin a) (ms ! n) = Inr (Fin a')"
    by (simp only: a'_def scan_step_spec [OF assms])
  have next_acc: "scan_months final_df ?grid ?bw (take (Suc n) ms) (Fin 0) = Inr (Fin a')"
    if "n < length ms"
    using that by (simp add: take_Suc_conv_app_nth scan_months_append acc step)
  have mono: "a \<le> a'" by (simp add: a'_def)
  have same: "a' = a" if "spec_peak (spec_observations final_df (ms ! n)) gs b \<le> a"
    using that by (simp add: a'_def)
  show "\<exists>a. scan_months final_df ?grid ?bw (take n ms) (Fin 0) = Inr (Fin a)
    \<and> a = Max (insert 0 (spec_peaks final_df gs b (take n ms)))
    \<and> (n < length ms \<longrightarrow> (\<exists>a'.
          scan_step final_df ?grid ?bw (Fin a) (ms ! n) = Inr (Fin a')
        \<and> scan_months final_df ?grid ?bw (take (Suc n) ms) (Fin 0) = Inr (Fin a')
        \<and> a \<le> a'
        \<and> a' = (if ms ! n \<noteq> MonthNaN \<and> spec_observations final_df (ms ! n) \<noteq> []
                then max a (spec_peak (spec_observations final_df (ms ! n)) gs b) else a)
        \<and> (spec_peak (spec_observations final_df (ms ! n)) gs b \<le> a \<longrightarrow> a' = a)))"
  proof (rule exI [of _ a], intro conjI impI)
    show "scan_months final_df ?grid ?bw (take n ms) (Fin 0) = Inr (Fin a)"
      by (rule acc)
    show "a = Max (insert 0 (spec_peaks final_df gs b (take n ms)))"
      by (rule a_def)
    assume lt: "n < length ms"
    show "\<exists>a'. scan_step final_df ?grid ?bw (Fin a) (ms ! n) = Inr (Fin a')
        \<and> scan_months final_df ?grid ?bw (take (Suc n) ms) (Fin 0) = Inr (Fin a')
        \<and> a \<le> a'
        \<and> a' = (if ms ! n \<noteq> MonthNaN \<and> spec_observations final_df (ms ! n) \<noteq> []
                then max a (spec_peak (spec_observations final_df (ms ! n)) gs b) else a)
        \<and> (spec_peak (spec_observations final_df (ms ! n)) gs b \<le> a \<longrightarrow> a' = a)"
    proof (rule exI [of _ a'], intro conjI impI)
      show "scan_step final_df ?grid ?bw (Fin a) (ms ! n) = Inr (Fin a')"
        by (rule step)
      show "scan_months final_df ?grid ?bw (take (Suc n) ms) (Fin 0) = Inr (Fin a')"
        by (rule next_acc [OF lt])
      show "a \<le> a'" by (rule mono)
      show "a' = (if ms ! n \<noteq> MonthNaN \<and> spec_observations final_df (ms ! n) \<noteq> []
                then max a (spec_peak (spec_observations final_df (ms ! n)) gs b) else a)"
        by (rule a'_def)
      assume "spec_peak (spec_observations final_df (ms ! n)) gs b \<le> a"
      then show "a' = a" by (rule same)
    qed
  qed
qed

theorem scan_accumulator_invariant_witness:
  "list_all (\<lambda>r. rating_real (rating r) \<noteq> None)
     [\<lparr>month = MonthInt 1, fed = ''FRA'', rating = I64 1000\<rparr>,
      \<lparr>month = MonthInt 2, fed = ''NOR'', rating = I64 1010\<rparr>,
      \<lparr>month = MonthInt 1, fed = ''NOR'', rating = I64 1020\<rparr>]
   \<and> [1000, 1040] \<noteq> ([] :: real list) \<and> (0::real) < 40
   \<and> (1::nat) < length [MonthInt 1, MonthInt 2]
   \<and> spec_peaks [\<lparr>month = MonthInt 1, fed = ''FRA'', rating = I64 1000\<rparr>,
                  \<lparr>month = MonthInt 2, fed = ''NOR'', rating = I64 1010\<rparr>,
                  \<lparr>month = MonthInt 1, fed = ''NOR'', rating = I64 1020\<rparr>]
        [1000, 1040] 40 (take 1 [MonthInt 1, MonthInt 2]) = {21 / 1280}
   \<and> scan_months [\<lparr>month = MonthInt 1, fed = ''FRA'', rating = I64 1000\<rparr>,
                   \<lparr>month = MonthInt 2, fed = ''NOR'', rating = I64 1010\<rparr>,
                   \<lparr>month = MonthInt 1, fed = ''NOR'', rating = I64 1020\<rparr>]
        (map Fin [1000, 1040]) (Fin 40) (take 1 [MonthInt 1, MonthInt 2]) (Fin 0)
       = Inr (Fin (21 / 1280))
   \<and> scan_step [\<lparr>month = MonthInt 1, fed = ''FRA'', rating = I64 1000\<rparr>,
                 \<lparr>month = MonthInt 2, fed = ''NOR'', rating = I64 1010\<rparr>,
                 \<lparr>month = MonthInt 1, fed = ''NOR'', rating = I64 1020\<rparr>]
        (map Fin [1000, 1040]) (Fin 40) (Fin (21 / 1280)) ([MonthInt 1, MonthInt 2] ! 1)
       = Inr (Fin (9 / 512))
   \<and> scan_months [\<lparr>month = MonthInt 1, fed = ''FRA'', rating = I64 1000\<rparr>,
                   \<lparr>month = MonthInt 2, fed = ''NOR'', rating = I64 1010\<rparr>,
                   \<lparr>month = MonthInt 1, fed = ''NOR'', rating = I64 1020\<rparr>]
        (map Fin [1000, 1040]) (Fin 40) (take (Suc 1) [MonthInt 1, MonthInt 2]) (Fin 0)
       = Inr (Fin (9 / 512))"
proof -
  let ?df = "[\<lparr>month = MonthInt 1, fed = ''FRA'', rating = I64 1000\<rparr>,
              \<lparr>month = MonthInt 2, fed = ''NOR'', rating = I64 1010\<rparr>,
              \<lparr>month = MonthInt 1, fed = ''NOR'', rating = I64 1020\<rparr>]"
  let ?ms = "[MonthInt 1, MonthInt 2]"
  have h1: "\<forall>r \<in> set ?df. rating_real (rating r) \<noteq> None" by simp
  have h2: "[1000, 1040] \<noteq> ([] :: real list)" by simp
  have h3: "(0::real) < 40" by simp
  have h4: "(1::nat) < length ?ms" by simp
  have h5: "(1::nat) \<le> length ?ms" by simp
  have t1: "take 1 ?ms = [MonthInt 1]" and n1: "?ms ! 1 = MonthInt 2" by simp_all
  have obs1: "spec_observations ?df (MonthInt 1) = [1000, 1020]"
    and obs2: "spec_observations ?df (MonthInt 2) = [1010]"
    by (simp_all add: spec_observations_def)
  have peak1: "spec_peak [1000, 1020] [1000, 1040] 40 = 21 / 1280"
    and peak2: "spec_peak [1010] [1000, 1040] 40 = 9 / 512"
    by (simp_all add: spec_peak_def spec_density_def spec_kernel_weight_def power2_eq_square)
  have peaks: "spec_peaks ?df [1000, 1040] 40 [MonthInt 1] = {21 / 1280}"
    by (simp add: spec_peaks_Cons spec_peaks_Nil obs1 peak1)
  from scan_accumulator_invariant [OF h1 h2 h3, of ?ms] h4 h5 obtain a a' where
    a: "scan_months ?df (map Fin [1000, 1040]) (Fin 40) (take 1 ?ms) (Fin 0) = Inr (Fin a)"
      "a = Max (insert 0 (spec_peaks ?df [1000, 1040] 40 (take 1 ?ms)))" and
    a': "scan_step ?df (map Fin [1000, 1040]) (Fin 40) (Fin a) (?ms ! 1) = Inr (Fin a')"
      "scan_months ?df (map Fin [1000, 1040]) (Fin 40) (take (Suc 1) ?ms) (Fin 0) = Inr (Fin a')"
      "a' = (if ?ms ! 1 \<noteq> MonthNaN \<and> spec_observations ?df (?ms ! 1) \<noteq> []
             then max a (spec_peak (spec_observations ?df (?ms ! 1)) [1000, 1040] 40) else a)"
    by blast
  have va: "a = 21 / 1280"
    using a(2) by (simp add: t1 peaks)
  have va': "a' = 9 / 512"
    using a'(3) by (simp add: n1 obs2 peak2 va)
  from a(1) a'(1,2) show ?thesis
    unfolding va va' using h1 h4 peaks by (simp add: list_all_iff t1)
qed

section \<open>The scan is a maximum: splitting and reordering the periods\<close>

lemma period_peak_empty_grid: "period_peak final_df [] bw m = Inl ValueError"
  by (simp add: period_peak_def kde_epanechnikov_def np_max_def)

lemma period_peak_grid: "grid \<noteq> [] \<Longrightarrow> \<exists>p. period_peak final_df grid bw m = Inr p"
  by (cases grid) (simp_all add: period_peak_def kde_epanechnikov_def np_max_def)

lemma scan_months_empty_grid:
  "scan_months final_df [] bw ms acc =
    (if \<exists>m \<in> set ms. month_ratings final_df m \<noteq> [] then Inl ValueError else Inr acc)"
  by (induction ms arbitrary: acc) (auto simp: scan_step_def period_peak_empty_grid)

lemma update_commute:
  "(if fgt q (if fgt p a then p else a) then q else (if fgt p a then p else a))
    = (if fgt p (if fgt q a then q else a) then p else (if fgt q a then q else a))"
  by (cases a; cases p; cases q) (auto simp: fgt_def)

lemma update_fmaximum:
  "a \<noteq> NaN \<Longrightarrow> r \<noteq> NaN \<Longrightarrow>
    (if fgt p (fmaximum a r) then p else fmaximum a r) = fmaximum a (if fgt p r then p else r)"
  by (cases a; cases r; cases p) (auto simp: fgt_def)

lemma scan_step_next:
  "grid \<noteq> [] \<Longrightarrow> scan_step final_df grid bw acc m = Inr (next_acc final_df grid bw m acc)"
  using period_peak_grid [of grid final_df bw m]
  by (auto simp: next_acc_def scan_step_def)

lemma scan_months_fold:
  "grid \<noteq> [] \<Longrightarrow>
    scan_months final_df grid bw ms acc = Inr (fold (next_acc final_df grid bw) ms acc)"
  by (induction ms arbitrary: acc) (simp_all add: scan_step_next)

lemma next_acc_form:
  "(\<forall>a. next_acc final_df grid bw m a = a)
    \<or> (\<exists>p. \<forall>a. next_acc final_df grid bw m a = (if fgt p a then p else a))"
proof (cases "month_ratings final_df m = []")
  case True
  then show ?thesis by (simp add: next_acc_def scan_step_def)
next
  case False
  show ?thesis
  proof (cases "period_peak final_df grid bw m")
    case (Inl e)
    with False show ?thesis by (simp add: next_acc_def scan_step_def)
  next
    case (Inr p)
    with False have "\<forall>a. next_acc final_df grid bw m a = (if fgt p a then p else a)"
      by (simp add: next_acc_def scan_step_def)
    then show ?thesis by blast
  qed
qed

lemma next_acc_commute:
  "next_acc final_df grid bw m (next_acc final_df grid bw m' a)
    = next_acc final_df grid bw m' (next_acc final_df grid bw m a)"
  using next_acc_form [of final_df grid bw m] next_acc_form [of final_df grid bw m']
  by (elim disjE exE) (simp_all add: update_commute)

lemma next_acc_fmaximum:
  "a \<noteq> NaN \<Longrightarrow> r \<noteq> NaN \<Longrightarrow>
    next_acc final_df grid bw m (fmaximum a r) = fmaximum a (next_acc final_df grid bw m r)"
  by (auto simp: next_acc_def scan_step_def update_fmaximum split: sum.splits)

lemma next_acc_not_NaN: "a \<noteq> NaN \<Longrightarrow> next_acc final_df grid bw m a \<noteq> NaN"
  by (auto simp: next_acc_def scan_step_def fgt_def split: sum.splits if_splits)

lemma fold_next_acc_not_NaN: "a \<noteq> NaN \<Longrightarrow> fold (next_acc final_df grid bw) ms a \<noteq> NaN"
  by (induction ms arbitrary: a) (simp_all add: next_acc_not_NaN)

lemma fmaximum_zero: "fge a (Fin 0) \<Longrightarrow> fmaximum a (Fin 0) = a"
  by (cases a) (auto simp: fge_def)

lemma fge_not_NaN: "fge a b \<Longrightarrow> a \<noteq> NaN"
  by (auto simp: fge_def)

lemma next_acc_fge: "fge a (Fin 0) \<Longrightarrow> fge (next_acc final_df grid bw m a) (Fin 0)"
proof -
  have "fge p (Fin 0)" if "fge a (Fin 0)" and "fgt p a" for p
    using that by (cases a; cases p) (auto simp: fge_def fgt_def)
  then show "fge a (Fin 0) \<Longrightarrow> fge (next_acc final_df grid bw m a) (Fin 0)"
    by (auto simp: next_acc_def scan_step_def split: sum.splits)
qed

lemma fold_next_acc_fge:
  "fge a (Fin 0) \<Longrightarrow> fge (fold (next_acc final_df grid bw) ms a) (Fin 0)"
  by (induction ms arbitrary: a) (simp_all add: next_acc_fge)

lemma fold_next_acc_fmaximum:
  assumes "fge a (Fin 0)"
  shows "fold (next_acc final_df grid bw) ms a
    = fmaximum a (fold (next_acc final_df grid bw) ms (Fin 0))"
proof (induction ms rule: rev_induct)
  case Nil
  then show ?case using assms by (simp add: fmaximum_zero)
next
  case (snoc m ms)
  have "a \<noteq> NaN" using assms by (rule fge_not_NaN)
  moreover have "fold (next_acc final_df grid bw) ms (Fin 0) \<noteq> NaN"
    by (rule fold_next_acc_not_NaN) simp
  ultimately show ?case
    using snoc by (simp add: next_acc_fmaximum)
qed

lemma scan_months_union:
  "scan_months final_df grid bw (A @ B) (Fin 0) =
    (case scan_months final_df grid bw A (Fin 0) of
       Inl e \<Rightarrow> Inl e
     | Inr a \<Rightarrow> (case scan_months final_df grid bw B (Fin 0) of
          Inl e \<Rightarrow> Inl e
        | Inr b \<Rightarrow> Inr (fmaximum a b)))"
proof (cases "grid = []")
  case True
  then show ?thesis
    by (auto simp: scan_months_empty_grid)
next
  case False
  have "fge (fold (next_acc final_df grid bw) A (Fin 0)) (Fin 0)"
    by (rule fold_next_acc_fge) (simp add: fge_def)
  from fold_next_acc_fmaximum [OF this, of final_df grid bw B] False show ?thesis
    by (simp add: scan_months_fold)
qed

lemma scan_months_permute:
  assumes "mset ms' = mset ms"
  shows "scan_months final_df grid bw ms' acc = scan_months final_df grid bw ms acc"
proof (cases "grid = []")
  case True
  from assms have "set ms' = set ms" by (rule mset_eq_setD)
  with True show ?thesis by (simp add: scan_months_empty_grid)
next
  case False
  have "fold (next_acc final_df grid bw) ms' = fold (next_acc final_df grid bw) ms"
    using assms by (intro fold_multiset_equiv) (auto simp: fun_eq_iff next_acc_commute)
  with False show ?thesis by (simp add: scan_months_fold)
qed

lemma scan_months_cong:
  "(\<And>m. m \<in> set ms \<Longrightarrow> month_ratings df m = month_ratings df' m) \<Longrightarrow>
    scan_months df grid bw ms acc = scan_months df' grid bw ms acc"
proof (induction ms arbitrary: acc)
  case Nil
  then show ?case by simp
next
  case (Cons m ms)
  have "scan_step df grid bw acc m = scan_step df' grid bw acc m" for acc
    using Cons.prems [of m] by (simp add: scan_step_def period_peak_def)
  moreover have "scan_months df grid bw ms acc = scan_months df' grid bw ms acc" for acc
    using Cons.prems by (intro Cons.IH) simp
  ultimately show ?case by (simp split: sum.splits)
qed

lemma fold_unique_append:
  "set ys \<inter> set seen = {} \<Longrightarrow>
    fold (\<lambda>x seen. if x \<in> set seen then seen else seen @ [x]) ys (seen @ acc)
      = seen @ fold (\<lambda>x seen. if x \<in> set seen then seen else seen @ [x]) ys acc"
proof (induction ys arbitrary: acc)
  case Nil
  then show ?case by simp
next
  case (Cons y ys)
  from Cons.prems have "y \<notin> set seen" and "set ys \<inter> set seen = {}" by auto
  then show ?case
    using Cons.IH [of acc] Cons.IH [of "acc @ [y]"] by simp
qed

lemma months_append:
  assumes "set (map month dfA) \<inter> set (map month dfB) = {}"
  shows "months (dfA @ dfB) = months dfA @ months dfB"
proof -
  let ?g = "\<lambda>x seen. if x \<in> set seen then seen else seen @ [x]"
  have "set (map month dfB) \<inter> set (fold ?g (map month dfA) []) = {}"
    using assms by (simp add: fold_unique_set Int_commute)
  from fold_unique_append [OF this, of "[]"] show ?thesis
    by (simp add: months_def unique_def)
qed

text \<open>
  C3. For every table that is split into two parts with disjoint sets of periods, the
  global maximum over the whole table is the maximum of the global maxima of the two
  parts (a \<^verbatim>\<open>ValueError\<close> of a part, possible on an empty grid only, is the result of the
  whole); and the scan over any permutation of the months of a table returns what the
  scan in table order returns. Both hold for every grid and every bandwidth.
\<close>

theorem global_max_density_union_order:
  "(set (map month dfA) \<inter> set (map month dfB) = {} \<longrightarrow>
      global_max_density (dfA @ dfB) grid bw =
        (case global_max_density dfA grid bw of
           Inl e \<Rightarrow> Inl e
         | Inr a \<Rightarrow> (case global_max_density dfB grid bw of
              Inl e \<Rightarrow> Inl e
            | Inr b \<Rightarrow> Inr (fmaximum a b))))
   \<and> (mset ms = mset (months final_df) \<longrightarrow>
      scan_months final_df grid bw ms (Fin 0) = global_max_density final_df grid bw)"
proof (intro conjI impI)
  assume disj: "set (map month dfA) \<inter> set (map month dfB) = {}"
  have A: "month_ratings (dfA @ dfB) m = month_ratings dfA m" if "m \<in> set (months dfA)" for m
  proof -
    from that disj have "m \<notin> month ` set dfB" by (auto simp: set_months)
    then have "month_ratings dfB m = []"
      by (auto simp: month_ratings_def key_eq_def filter_empty_conv)
    then show ?thesis by (simp add: month_ratings_def)
  qed
  have B: "month_ratings (dfA @ dfB) m = month_ratings dfB m" if "m \<in> set (months dfB)" for m
  proof -
    from that disj have "m \<notin> month ` set dfA" by (auto simp: set_months)
    then have "month_ratings dfA m = []"
      by (auto simp: month_ratings_def key_eq_def filter_empty_conv)
    then show ?thesis by (simp add: month_ratings_def)
  qed
  have sA: "scan_months (dfA @ dfB) grid bw (months dfA) (Fin 0) = global_max_density dfA grid bw"
    unfolding global_max_density_def by (rule scan_months_cong) (rule A)
  have sB: "scan_months (dfA @ dfB) grid bw (months dfB) (Fin 0) = global_max_density dfB grid bw"
    unfolding global_max_density_def by (rule scan_months_cong) (rule B)
  have "global_max_density (dfA @ dfB) grid bw
      = scan_months (dfA @ dfB) grid bw (months dfA @ months dfB) (Fin 0)"
    by (simp add: global_max_density_def months_append [OF disj])
  then show "global_max_density (dfA @ dfB) grid bw =
        (case global_max_density dfA grid bw of
           Inl e \<Rightarrow> Inl e
         | Inr a \<Rightarrow> (case global_max_density dfB grid bw of
              Inl e \<Rightarrow> Inl e
            | Inr b \<Rightarrow> Inr (fmaximum a b)))"
    by (simp only: scan_months_union sA sB)
next
  assume "mset ms = mset (months final_df)"
  then show "scan_months final_df grid bw ms (Fin 0) = global_max_density final_df grid bw"
    unfolding global_max_density_def by (rule scan_months_permute)
qed

theorem global_max_density_union_order_witness:
  "set (map month [\<lparr>month = MonthInt 1, fed = ''FRA'', rating = I64 1000\<rparr>])
      \<inter> set (map month [\<lparr>month = MonthInt 2, fed = ''NOR'', rating = I64 1010\<rparr>]) = {}
   \<and> global_max_density ([\<lparr>month = MonthInt 1, fed = ''FRA'', rating = I64 1000\<rparr>]
        @ [\<lparr>month = MonthInt 2, fed = ''NOR'', rating = I64 1010\<rparr>]) [Fin 1000] (Fin 40)
      = (case global_max_density [\<lparr>month = MonthInt 1, fed = ''FRA'', rating = I64 1000\<rparr>] [Fin 1000] (Fin 40) of
           Inl e \<Rightarrow> Inl e
         | Inr a \<Rightarrow> (case global_max_density [\<lparr>month = MonthInt 2, fed = ''NOR'', rating = I64 1010\<rparr>]
                         [Fin 1000] (Fin 40) of
              Inl e \<Rightarrow> Inl e
            | Inr b \<Rightarrow> Inr (fmaximum a b)))
   \<and> mset [MonthInt 2, MonthInt 1] = mset (months [\<lparr>month = MonthInt 1, fed = ''FRA'', rating = I64 1000\<rparr>,
                                 \<lparr>month = MonthInt 2, fed = ''NOR'', rating = I64 1010\<rparr>])
   \<and> scan_months [\<lparr>month = MonthInt 1, fed = ''FRA'', rating = I64 1000\<rparr>,
                  \<lparr>month = MonthInt 2, fed = ''NOR'', rating = I64 1010\<rparr>] [Fin 1000] (Fin 40) [MonthInt 2, MonthInt 1] (Fin 0)
      = global_max_density [\<lparr>month = MonthInt 1, fed = ''FRA'', rating = I64 1000\<rparr>,
                            \<lparr>month = MonthInt 2, fed = ''NOR'', rating = I64 1010\<rparr>] [Fin 1000] (Fin 40)"
proof -
  let ?dfA = "[\<lparr>month = MonthInt 1, fed = ''FRA'', rating = I64 1000\<rparr>]"
  let ?dfB = "[\<lparr>month = MonthInt 2, fed = ''NOR'', rating = I64 1010\<rparr>]"
  let ?df = "[\<lparr>month = MonthInt 1, fed = ''FRA'', rating = I64 1000\<rparr>,
              \<lparr>month = MonthInt 2, fed = ''NOR'', rating = I64 1010\<rparr>]"
  have h1: "set (map month ?dfA) \<inter> set (map month ?dfB) = {}" by simp
  have h2: "mset [MonthInt 2, MonthInt 1] = mset (months ?df)" by (simp add: months_def unique_def)
  from global_max_density_union_order [of ?dfA ?dfB "[Fin 1000]" "Fin 40" "[MonthInt 2, MonthInt 1]" ?df] h1 h2
  show ?thesis by blast
qed

end
